theory Spec2Isabelle
  imports Main
begin

section \<open>Values, objects and actions\<close>

text \<open>
  The reducer module handles three kinds of JavaScript data.

  \<^item> The state a part or a keyed reducer owns is opaque to the module: it is only passed
    on, tested against \<^verbatim>\<open>undefined\<close> and compared with the equality check. It is a
    \<open>val\<close>: a primitive, a reference \<open>Ref a\<close> to some object, or one of the members
    every object inherits.
  \<^item> A composite state is a plain object. The module never mutates an object it was given
    or has returned, so an object is an immutable value that carries its identity
    (\<open>ident\<close>, the address the runtime gave it) beside its own properties. Two objects
    are the same reference iff their identities are equal.
  \<^item> Every object literal the module evaluates allocates a new object. The functions
    below take the next unused address and return the next one after their allocations.
  \<^item> States and the part map are plain objects: a read finds an own property, else the
    member of that name every object inherits, else \<^verbatim>\<open>undefined\<close>; and an assignment
    to the name \<^verbatim>\<open>__proto__\<close> stores no key.
\<close>

type_synonym addr = nat

datatype val =
    Undefined | Null | Bool bool | Num int | NaN | Str string | Ref addr
  | Builtin string

text \<open>
  \<open>Builtin key\<close> is the member a plain object inherits under \<open>key\<close> from
  \<^verbatim>\<open>Object.prototype\<close>: a function, and under \<^verbatim>\<open>__proto__\<close> the prototype itself. These are
  their names.
\<close>

definition object_prototype_keys :: "string list" where
  "object_prototype_keys =
     [''constructor'', ''hasOwnProperty'', ''isPrototypeOf'', ''propertyIsEnumerable'',
      ''toLocaleString'', ''toString'', ''valueOf'', ''__proto__'',
      ''__defineGetter__'', ''__defineSetter__'', ''__lookupGetter__'', ''__lookupSetter__'']"

record obj =
  ident :: addr
  props :: "string \<rightharpoonup> val"

text \<open>
  An action: its \<^verbatim>\<open>type\<close> tag, which may be any value (\<open>Undefined\<close> when the field is
  absent), its \<^verbatim>\<open>$$part\<close> tag (\<open>None\<close> when the field is absent), and whatever else it
  carries. The literal \<^verbatim>\<open>{}\<close> is \<open>empty_action\<close>.
\<close>

record action =
  atype :: val
  part_tag :: "string option"
  payload :: val

definition empty_action :: action where
  "empty_action = \<lparr>atype = Undefined, part_tag = None, payload = Undefined\<rparr>"

datatype error = Error string | ReferenceError string | TypeError string

text \<open>
  \<^verbatim>\<open>state[key]\<close>: the own property, else the inherited member of that name, else
  \<^verbatim>\<open>undefined\<close>.
\<close>

definition get_prop :: "obj \<Rightarrow> string \<Rightarrow> val" where
  "get_prop state key =
     (case props state key of
        Some v \<Rightarrow> v
      | None \<Rightarrow> if key \<in> set object_prototype_keys then Builtin key else Undefined)"

text \<open>
  Modelled from the spec: the equality check \<^verbatim>\<open>is\<close>, imported from another package and
  not among the sources. The spec describes a single-level same-value comparison:
  primitives by value, with NaN equal to itself, and objects by reference.
\<close>

definition is_val :: "val \<Rightarrow> val \<Rightarrow> bool" where
  "is_val x y = (x = y)"

definition is_obj :: "obj \<Rightarrow> obj \<Rightarrow> bool" where
  "is_obj x y = (ident x = ident y)"

section \<open>Reducers and parts\<close>

text \<open>
  A reducer over a sub-state is a pure function of the previous value and the action. A
  reducer over a composite state takes the state object (or nothing) and returns an
  object. The reducers this module builds also allocate and may throw.
\<close>

type_synonym reducer = "val \<Rightarrow> action \<Rightarrow> val"

type_synonym other_fn = "obj option \<Rightarrow> action \<Rightarrow> obj"

type_synonym root_reducer = "obj option \<Rightarrow> action \<Rightarrow> addr \<Rightarrow> error + obj \<times> addr"

text \<open>
  A reducers map, as \<^verbatim>\<open>Object.keys\<close> enumerates it: its entries in order, each one a
  function or some other value.
\<close>

datatype entry = Fn reducer | NotFn val

type_synonym reducers_map = "(string \<times> entry) list"

text \<open>A part: its name \<^verbatim>\<open>n\<close>, its owner key \<^verbatim>\<open>o\<close> and its reducer \<^verbatim>\<open>r\<close>.\<close>

record part =
  part_n :: string
  part_o :: string
  part_r :: reducer

text \<open>Whatever may be passed as \<^verbatim>\<open>otherReducer\<close>.\<close>

datatype other_arg =
    OUndefined | ONull | OBool bool | ONum int | ONaN | OStr string
  | OFn other_fn | OMap reducers_map

record config =
  otherReducer :: other_arg
  partMap :: "string \<rightharpoonup> part"
  parts :: "part list"

text \<open>
  What the module takes from outside its sources: the two predicates imported from the
  validation module, which is not among the sources, and the built-in conversion
  \<^verbatim>\<open>String\<close>. The functions below take them as a parameter.
\<close>

record validate =
  isPartAction :: "action \<Rightarrow> bool"
  isReducersMap :: "other_arg \<Rightarrow> bool"
  String :: "val \<Rightarrow> string"

section \<open>JavaScript primitives the module relies on\<close>

text \<open>The truth value of a value, as a condition takes it.\<close>

fun truthy_val :: "val \<Rightarrow> bool" where
  "truthy_val Undefined = False"
| "truthy_val Null = False"
| "truthy_val (Bool b) = b"
| "truthy_val (Num i) = (i \<noteq> 0)"
| "truthy_val NaN = False"
| "truthy_val (Str s) = (s \<noteq> [])"
| "truthy_val (Ref a) = True"
| "truthy_val (Builtin k) = True"

fun truthy :: "other_arg \<Rightarrow> bool" where
  "truthy OUndefined = False"
| "truthy ONull = False"
| "truthy (OBool b) = b"
| "truthy (ONum i) = (i \<noteq> 0)"
| "truthy ONaN = False"
| "truthy (OStr s) = (s \<noteq> [])"
| "truthy (OFn f) = True"
| "truthy (OMap m) = True"

fun typeof :: "other_arg \<Rightarrow> string" where
  "typeof OUndefined = ''undefined''"
| "typeof ONull = ''object''"
| "typeof (OBool b) = ''boolean''"
| "typeof (ONum i) = ''number''"
| "typeof ONaN = ''number''"
| "typeof (OStr s) = ''string''"
| "typeof (OFn f) = ''function''"
| "typeof (OMap m) = ''object''"

fun digits :: "nat \<Rightarrow> string" where
  "digits n =
     (if n < 10 then [char_of (48 + n)] else digits (n div 10) @ [char_of (48 + n mod 10)])"

text \<open>
  \<^verbatim>\<open>String\<close> on the values the examples use: an integer prints in decimal (as numbers
  below \<^verbatim>\<open>1e21\<close> in magnitude do), an object as a plain object does, an inherited
  function as native code.
\<close>

fun js_String :: "val \<Rightarrow> string" where
  "js_String Undefined = ''undefined''"
| "js_String Null = ''null''"
| "js_String (Bool b) = (if b then ''true'' else ''false'')"
| "js_String (Num i) = (if i < 0 then ''-'' @ digits (nat (- i)) else digits (nat i))"
| "js_String NaN = ''NaN''"
| "js_String (Str s) = s"
| "js_String (Ref a) = ''[object Object]''"
| "js_String (Builtin k) =
     (if k = ''__proto__'' then ''[object Object]''
      else ''function '' @ (if k = ''constructor'' then ''Object'' else k) @
           ''() { [native code] }'')"

text \<open>
  Modelled from the spec: the validation module, missing from the sources. A part action
  is an action that carries the \<^verbatim>\<open>$$part\<close> tag; the other reducer may be a mapping from
  keys to reducers.
\<close>

definition spec_validate :: validate where
  "spec_validate =
     \<lparr>isPartAction = (\<lambda>a. part_tag a \<noteq> None),
      isReducersMap = (\<lambda>x. case x of OMap _ \<Rightarrow> True | _ \<Rightarrow> False),
      String = js_String\<rparr>"

text \<open>
  The assignment \<^verbatim>\<open>object[key] = value\<close> on a plain object: the name \<^verbatim>\<open>__proto__\<close> is
  the accessor of the prototype, and an assignment to it stores no key.
\<close>

definition assign :: "(string \<rightharpoonup> 'a) \<Rightarrow> string \<Rightarrow> 'a \<Rightarrow> (string \<rightharpoonup> 'a)" where
  "assign object key v = (if key = ''__proto__'' then object else object(key \<mapsto> v))"

text \<open>
  The own enumerable properties of a value, as \<^verbatim>\<open>Object.keys\<close> and a property read see
  them: the entries of a map, the characters of a string under their indices, none for
  the other primitives and for a function (taken to have no properties of its own).
\<close>

fun own_entries :: "other_arg \<Rightarrow> reducers_map" where
  "own_entries (OMap m) = m"
| "own_entries (OStr s) = map (\<lambda>(i, c). (digits i, NotFn (Str [c]))) (enumerate 0 s)"
| "own_entries _ = []"

section \<open>combineOtherReducers\<close>

text \<open>
  The entries that are functions, in order: \<^verbatim>\<open>finalReducers\<close>. Each is stored by the
  assignment \<^verbatim>\<open>finalReducers[key] = reducers[key]\<close>, so an entry named \<^verbatim>\<open>__proto__\<close> is
  not retained. The warning a development build prints for an entry that is
  \<^verbatim>\<open>undefined\<close> changes no result and is left out.
\<close>

fun finalReducers :: "reducers_map \<Rightarrow> (string \<times> reducer) list" where
  "finalReducers [] = []"
| "finalReducers ((key, Fn f) # reducers) =
     (if key = ''__proto__'' then finalReducers reducers else (key, f) # finalReducers reducers)"
| "finalReducers ((key, NotFn v) # reducers) = finalReducers reducers"

definition undefined_message :: "(val \<Rightarrow> string) \<Rightarrow> action \<Rightarrow> string \<Rightarrow> string" where
  \<open>undefined_message string_of action key =
     (let actionType = atype action in
      ''When called with an action of type '' @
      (if truthy_val actionType then ''"'' @ string_of actionType @ ''"'' else ''(unknown type)'') @
      '', the part reducer for key "'' @ key @ ''" returned undefined. '' @
      ''To ignore an action, you must explicitly return the previous state. '' @
      ''If you want this reducer to hold no value, you can return null instead of undefined.'')\<close>

text \<open>
  The loop of the combined reducer over \<^verbatim>\<open>finalReducerKeys\<close>, with \<^verbatim>\<open>nextState\<close> and
  \<^verbatim>\<open>hasChanged\<close> as its variables. The throw leaves the loop at once. The keys are own
  keys of \<^verbatim>\<open>finalReducers\<close>, none of them \<^verbatim>\<open>__proto__\<close>, so that the assignment to
  \<^verbatim>\<open>nextState[key]\<close> stores its key.
\<close>

fun reducer_loop ::
  "(val \<Rightarrow> string) \<Rightarrow> (string \<times> reducer) list \<Rightarrow> obj \<Rightarrow> action \<Rightarrow> (string \<rightharpoonup> val) \<Rightarrow> bool
     \<Rightarrow> error + (string \<rightharpoonup> val) \<times> bool" where
  "reducer_loop string_of [] state action nextState hasChanged = Inr (nextState, hasChanged)"
| "reducer_loop string_of ((key, f) # rest) state action nextState hasChanged =
     (let previousStateForKey = get_prop state key;
          nextStateForKey = f previousStateForKey action
      in if nextStateForKey = Undefined
         then Inl (Error (undefined_message string_of action key))
         else reducer_loop string_of rest state action (nextState(key \<mapsto> nextStateForKey))
                (hasChanged \<or> \<not> is_val previousStateForKey nextStateForKey))"

text \<open>
  The reducer \<^verbatim>\<open>combineOtherReducers\<close> returns. A missing state defaults to a new empty
  object; \<^verbatim>\<open>nextState\<close> is a new object in every call, returned only after a change.
\<close>

definition default_state :: "obj option \<Rightarrow> addr \<Rightarrow> obj \<times> addr" where
  "default_state state n =
     (case state of
        None \<Rightarrow> (\<lparr>ident = n, props = Map.empty\<rparr>, Suc n)
      | Some s \<Rightarrow> (s, n))"

definition combineOtherReducers :: "(val \<Rightarrow> string) \<Rightarrow> reducers_map \<Rightarrow> root_reducer" where
  "combineOtherReducers string_of reducers =
     (let final = finalReducers reducers in
      (\<lambda>state action n.
         let (state, n) = default_state state n
         in case reducer_loop string_of final state action Map.empty False of
              Inl e \<Rightarrow> Inl e
            | Inr (nextState, hasChanged) \<Rightarrow>
                Inr (if hasChanged then \<lparr>ident = n, props = nextState\<rparr> else state, Suc n)))"

section \<open>getInitialState\<close>

fun initial_loop :: "part list \<Rightarrow> (string \<rightharpoonup> val) \<Rightarrow> (string \<rightharpoonup> val)" where
  "initial_loop [] initialState = initialState"
| "initial_loop (part # rest) initialState =
     initial_loop rest (assign initialState (part_n part) (part_r part Undefined empty_action))"

definition getInitialState :: "part list \<Rightarrow> addr \<Rightarrow> obj \<times> addr" where
  "getInitialState ps n = (\<lparr>ident = n, props = initial_loop ps Map.empty\<rparr>, Suc n)"

section \<open>createReducer\<close>

text \<open>
  The key and the text \<^verbatim>\<open>action.$$part\<close> gives: a missing tag reads as \<^verbatim>\<open>undefined\<close>.
\<close>

definition tag_of :: "action \<Rightarrow> string" where
  "tag_of action = (case part_tag action of None \<Rightarrow> ''undefined'' | Some t \<Rightarrow> t)"

definition unregistered_message :: "action \<Rightarrow> string" where
  "unregistered_message action =
     ''Part with ID `'' @ tag_of action @
     ''` was not provided to the partitioner for inclusion in state. '' @
     ''Please add it to the list of parts provided to `createPartitioner`.''"

text \<open>
  What the read \<^verbatim>\<open>partMap[key]\<close> gives: a registered part, else a member every object
  inherits, else \<^verbatim>\<open>undefined\<close>.
\<close>

datatype member = Registered part | Inherited | Missing

definition read_part :: "(string \<rightharpoonup> part) \<Rightarrow> string \<Rightarrow> member" where
  "read_part pm key =
     (case pm key of
        Some part \<Rightarrow> Registered part
      | None \<Rightarrow> if key \<in> set object_prototype_keys then Inherited else Missing)"

text \<open>
  An inherited member is truthy and passes the guard; it has no \<^verbatim>\<open>o\<close> and no \<^verbatim>\<open>r\<close>, and
  the call of \<^verbatim>\<open>part.r\<close> throws a \<^verbatim>\<open>TypeError\<close>.
\<close>

definition partsReducer :: "(string \<rightharpoonup> part) \<Rightarrow> obj \<Rightarrow> action \<Rightarrow> addr \<Rightarrow> error + obj \<times> addr" where
  "partsReducer pm state action n =
     (case read_part pm (tag_of action) of
        Missing \<Rightarrow> Inl (ReferenceError (unregistered_message action))
      | Inherited \<Rightarrow> Inl (TypeError ''part.r is not a function'')
      | Registered part \<Rightarrow>
          (let owner = part_o part;
               prev = get_prop state owner;
               next = part_r part prev action
           in if is_val prev next then Inr (state, n)
              else Inr (\<lparr>ident = n, props = (props state)(owner \<mapsto> next)\<rparr>, Suc n)))"

definition invalid_message :: "other_arg \<Rightarrow> string" where
  "invalid_message other =
     ''`otherReducer` provided was expected to be a function or a map of reducers; received '' @
     typeof other"

text \<open>The reducer returned when no other reducer is given.\<close>

definition parts_only_reducer :: "validate \<Rightarrow> config \<Rightarrow> root_reducer" where
  "parts_only_reducer V cfg state action n =
     (let (state, n) = (case state of None \<Rightarrow> getInitialState (parts cfg) n | Some s \<Rightarrow> (s, n))
      in if isPartAction V action then partsReducer (partMap cfg) state action n
         else Inr (state, n))"

text \<open>
  The reducer returned beside an other reducer. In the first branch the object literal
  is allocated before its spread arguments are evaluated.
\<close>

definition full_reducer :: "validate \<Rightarrow> config \<Rightarrow> root_reducer \<Rightarrow> root_reducer" where
  "full_reducer V cfg additionalReducer state action n =
     (case state of
        None \<Rightarrow>
          (let result = n;
               (initial, n1) = getInitialState (parts cfg) (Suc n)
           in case additionalReducer None action n1 of
                Inl e \<Rightarrow> Inl e
              | Inr (other, n2) \<Rightarrow>
                  Inr (\<lparr>ident = result, props = props initial ++ props other\<rparr>, n2))
      | Some state \<Rightarrow>
          if isPartAction V action then partsReducer (partMap cfg) state action n
          else (case additionalReducer (Some state) action n of
                  Inl e \<Rightarrow> Inl e
                | Inr (nextOtherState, n1) \<Rightarrow>
                    if is_obj state nextOtherState then Inr (state, n1)
                    else Inr (\<lparr>ident = n1, props = props state ++ props nextOtherState\<rparr>,
                              Suc n1)))"

text \<open>
  \<^verbatim>\<open>additionalReducer\<close>: the combined reducer of a reducers map, else the argument itself,
  which can be called only when it is a function.
\<close>

definition additional :: "validate \<Rightarrow> other_arg \<Rightarrow> root_reducer option" where
  "additional V other =
     (if isReducersMap V other then Some (combineOtherReducers (String V) (own_entries other))
      else (case other of
              OFn f \<Rightarrow> Some (\<lambda>state action n. Inr (f state action, n))
            | _ \<Rightarrow> None))"

definition createReducer :: "validate \<Rightarrow> config \<Rightarrow> error + root_reducer" where
  "createReducer V cfg =
     (if \<not> truthy (otherReducer cfg) then Inr (parts_only_reducer V cfg)
      else (case additional V (otherReducer cfg) of
              None \<Rightarrow> Inl (ReferenceError (invalid_message (otherReducer cfg)))
            | Some additionalReducer \<Rightarrow> Inr (full_reducer V cfg additionalReducer)))"

text \<open>
  A store dispatching a sequence of actions: each state is fed to the next call, and a
  throw ends the replay.
\<close>

fun replay :: "root_reducer \<Rightarrow> obj option \<Rightarrow> action list \<Rightarrow> addr \<Rightarrow> error + obj option \<times> addr" where
  "replay R state [] n = Inr (state, n)"
| "replay R state (a # as) n =
     (case R state a n of
        Inl e \<Rightarrow> Inl e
      | Inr (state', n') \<Rightarrow> replay R (Some state') as n')"

section \<open>Notions the claims are stated with\<close>

text \<open>The properties the loop of the combined reducer has assigned when it ends.\<close>

definition next_props :: "(string \<times> reducer) list \<Rightarrow> obj \<Rightarrow> action \<Rightarrow> (string \<rightharpoonup> val)" where
  "next_props final st a = map_of (map (\<lambda>(k, f). (k, f (get_prop st k) a)) (rev final))"

text \<open>
  Every keyed reducer returns, for the value the state holds at its key, a value that is
  defined and equal to that value.
\<close>

definition keys_unchanged :: "(string \<times> reducer) list \<Rightarrow> obj \<Rightarrow> action \<Rightarrow> bool" where
  "keys_unchanged final st a =
     list_all (\<lambda>(k, f). f (get_prop st k) a \<noteq> Undefined \<and>
                       is_val (get_prop st k) (f (get_prop st k) a)) final"

text \<open>
  Every reducer the root reducer runs for an action returns a value equal to the previous
  one: the reducer of the registered part a part action targets, else the reducers of the
  map (with defined results), else the other reducer on the whole state.
\<close>

definition unchanged :: "validate \<Rightarrow> config \<Rightarrow> obj \<Rightarrow> action \<Rightarrow> bool" where
  "unchanged V cfg st a =
     (if isPartAction V a then
        (case partMap cfg (tag_of a) of
           None \<Rightarrow> False
         | Some p \<Rightarrow> is_val (get_prop st (part_o p)) (part_r p (get_prop st (part_o p)) a))
      else if \<not> truthy (otherReducer cfg) then True
      else if isReducersMap V (otherReducer cfg) then
        keys_unchanged (finalReducers (own_entries (otherReducer cfg))) st a
      else (case otherReducer cfg of
              OFn f \<Rightarrow> is_obj st (f (Some st) a)
            | _ \<Rightarrow> False))"

text \<open>
  What the empty default state of the combined reducer holds at a key: \<^verbatim>\<open>undefined\<close>,
  but for the names of the inherited members.
\<close>

definition initial_read :: "string \<Rightarrow> val" where
  "initial_read key = get_prop \<lparr>ident = 0, props = Map.empty\<rparr> key"

text \<open>
  The other reducer initialises alike for two actions: every keyed reducer returns the
  same defined value for both actions on what the default state holds at its key
  (\<^verbatim>\<open>(undefined, a1)\<close> and \<^verbatim>\<open>(undefined, a2)\<close>), or the function returns the same object.
\<close>

definition other_init_agrees :: "validate \<Rightarrow> other_arg \<Rightarrow> action \<Rightarrow> action \<Rightarrow> bool" where
  "other_init_agrees V other a1 a2 =
     (if isReducersMap V other then
        list_all (\<lambda>(k, f). f (initial_read k) a1 \<noteq> Undefined \<and>
                          f (initial_read k) a1 = f (initial_read k) a2)
          (finalReducers (own_entries other))
      else (case other of OFn f \<Rightarrow> f None a1 = f None a2 | _ \<Rightarrow> True))"

text \<open>
  Two replays of a sequence of actions allocate at different addresses, the first from
  \<open>n1\<close> on and the second from \<open>n2\<close> on. A pure other reducer given as a function
  cannot tell the objects of the two replays apart: on states with the same properties
  it returns the same properties, and returns its argument itself in both replays or in
  neither.
\<close>

definition other_ignores_addresses :: "validate \<Rightarrow> other_arg \<Rightarrow> addr \<Rightarrow> addr \<Rightarrow> bool" where
  "other_ignores_addresses V other n1 n2 =
     (if isReducersMap V other then True
      else (case other of
              OFn f \<Rightarrow>
                (\<forall>s1 s2 a. props s1 = props s2 \<and> n1 \<le> ident s1 \<and> n2 \<le> ident s2 \<longrightarrow>
                   props (f (Some s1) a) = props (f (Some s2) a) \<and>
                   is_obj s1 (f (Some s1) a) = is_obj s2 (f (Some s2) a))
            | _ \<Rightarrow> True))"

text \<open>A state that is an object allocated at \<open>n\<close> or later.\<close>

definition fresh_from :: "addr \<Rightarrow> obj option \<Rightarrow> bool" where
  "fresh_from n t = (case t of None \<Rightarrow> False | Some s \<Rightarrow> n \<le> ident s)"

text \<open>
  Two outcomes of a replay agree: the same error, or states with the same properties
  that are both the initial state itself or both objects allocated during the replay.
\<close>

definition same_outcome ::
  "obj option \<Rightarrow> addr \<Rightarrow> addr \<Rightarrow> error + obj option \<times> addr \<Rightarrow> error + obj option \<times> addr \<Rightarrow> bool" where
  "same_outcome init n1 n2 x y =
     (case x of
        Inl e1 \<Rightarrow> (case y of Inl e2 \<Rightarrow> e1 = e2 | Inr _ \<Rightarrow> False)
      | Inr (t1, m1) \<Rightarrow>
          (case y of
             Inl _ \<Rightarrow> False
           | Inr (t2, m2) \<Rightarrow>
               map_option props t1 = map_option props t2 \<and>
               (t1 = init \<and> t2 = init \<or> fresh_from n1 t1 \<and> fresh_from n2 t2)))"

text \<open>The same for one call of the root reducer, with the allocation counters.\<close>

definition step_agrees ::
  "obj option \<Rightarrow> addr \<Rightarrow> obj option \<Rightarrow> addr \<Rightarrow> error + obj \<times> addr \<Rightarrow> error + obj \<times> addr \<Rightarrow> bool" where
  "step_agrees s1 c1 s2 c2 x y =
     (case x of
        Inl e1 \<Rightarrow> (case y of Inl e2 \<Rightarrow> e1 = e2 | Inr _ \<Rightarrow> False)
      | Inr (t1, d1) \<Rightarrow>
          (case y of
             Inl _ \<Rightarrow> False
           | Inr (t2, d2) \<Rightarrow>
               props t1 = props t2 \<and> c1 \<le> d1 \<and> c2 \<le> d2 \<and>
               (s1 = Some t1 \<and> s2 = Some t2 \<or>
                c1 \<le> ident t1 \<and> ident t1 < d1 \<and> c2 \<le> ident t2 \<and> ident t2 < d2)))"

section \<open>Example data\<close>

text \<open>A state, two actions, and reducers maps with an entry that is no function.\<close>

definition ex_state :: obj where
  "ex_state = \<lparr>ident = 0, props = [''count'' \<mapsto> Num 3, ''stale'' \<mapsto> Null]\<rparr>"

definition ex_action :: action where
  "ex_action = \<lparr>atype = Str ''go'', part_tag = None, payload = Null\<rparr>"

definition noop_action :: action where
  "noop_action = \<lparr>atype = Str ''noop'', part_tag = None, payload = Undefined\<rparr>"

definition ex_bad_reducers :: reducers_map where
  "ex_bad_reducers =
     [(''count'', Fn (\<lambda>s a. s)), (''skip'', NotFn Undefined), (''ui'', Fn (\<lambda>s a. s))]"

definition ex_reducers :: reducers_map where
  "ex_reducers =
     [(''count'', Fn (\<lambda>s a. if atype a = Str ''go'' then Num 4 else s)),
      (''skip'', NotFn Undefined),
      (''ui'', Fn (\<lambda>s a. if s = Undefined then Ref 7 else s))]"

definition ex_undefined_reducers :: reducers_map where
  "ex_undefined_reducers = [(''a'', Fn (\<lambda>s a. Undefined)), (''b'', Fn (\<lambda>s a. Undefined))]"

definition zero_action :: action where
  "zero_action = \<lparr>atype = Num 0, part_tag = None, payload = Undefined\<rparr>"

text \<open>
  The first scenario of the specification: one part \<^verbatim>\<open>counter\<close> whose reducer adds one
  on its own actions (on numbers; other values are left as they are), no other reducer.
\<close>

definition counter_reducer :: reducer where
  "counter_reducer s a =
     (let s = (if s = Undefined then Num 0 else s)
      in if part_tag a = Some ''counter'' then (case s of Num i \<Rightarrow> Num (i + 1) | v \<Rightarrow> v) else s)"

definition counter_part :: part where
  "counter_part = \<lparr>part_n = ''counter'', part_o = ''counter'', part_r = counter_reducer\<rparr>"

definition counter_config :: config where
  "counter_config =
     \<lparr>otherReducer = OUndefined, partMap = [''counter'' \<mapsto> counter_part], parts = [counter_part]\<rparr>"

definition counter_action :: action where
  "counter_action = \<lparr>atype = Undefined, part_tag = Some ''counter'', payload = Undefined\<rparr>"

definition ghost_action :: action where
  "ghost_action = \<lparr>atype = Undefined, part_tag = Some ''ghost'', payload = Undefined\<rparr>"

definition constructor_action :: action where
  "constructor_action = \<lparr>atype = Undefined, part_tag = Some ''constructor'', payload = Undefined\<rparr>"

definition counter_state :: obj where
  "counter_state = \<lparr>ident = 0, props = [''counter'' \<mapsto> Num 5, ''extra'' \<mapsto> Null]\<rparr>"

text \<open>A part whose owner key is not its name, and other reducers that are no reducers.\<close>

definition nested_part :: part where
  "nested_part =
     \<lparr>part_n = ''child'', part_o = ''parent'',
      part_r = (\<lambda>s a. if s = Undefined then Num 1 else s)\<rparr>"

definition nested_config :: config where
  "nested_config =
     \<lparr>otherReducer = OUndefined, partMap = [''child'' \<mapsto> nested_part], parts = [nested_part]\<rparr>"

definition child_action :: action where
  "child_action = \<lparr>atype = Undefined, part_tag = Some ''child'', payload = Undefined\<rparr>"

definition null_config :: config where
  "null_config = \<lparr>otherReducer = ONull, partMap = Map.empty, parts = []\<rparr>"

definition number_config :: config where
  "number_config = \<lparr>otherReducer = ONum 5, partMap = Map.empty, parts = []\<rparr>"

text \<open>
  The second scenario: a reducers map with the key \<^verbatim>\<open>ui\<close>, whose default state is an
  object (here the reference \<open>Ref 7\<close>), beside one part \<^verbatim>\<open>x\<close>. Then a keyed reducer that
  stores the type of the action, and an other reducer given as a function.
\<close>

definition ui_reducer :: reducer where
  "ui_reducer s a = (if s = Undefined then Ref 7 else s)"

definition x_part :: part where
  "x_part =
     \<lparr>part_n = ''x'', part_o = ''x'', part_r = (\<lambda>s a. if s = Undefined then Num 0 else s)\<rparr>"

definition ui_config :: config where
  "ui_config =
     \<lparr>otherReducer = OMap [(''ui'', Fn ui_reducer)], partMap = [''x'' \<mapsto> x_part], parts = [x_part]\<rparr>"

definition ui_state :: obj where
  "ui_state = \<lparr>ident = 0, props = [''x'' \<mapsto> Num 0, ''ui'' \<mapsto> Ref 7]\<rparr>"

definition echo_reducer :: reducer where
  "echo_reducer s a = (if atype a = Undefined then Null else atype a)"

definition echo_config :: config where
  "echo_config =
     \<lparr>otherReducer = OMap [(''last'', Fn echo_reducer)], partMap = Map.empty, parts = []\<rparr>"

definition log_fn :: other_fn where
  "log_fn s a =
     (case s of
        None \<Rightarrow> \<lparr>ident = 0, props = [''log'' \<mapsto> Num 0]\<rparr>
      | Some st \<Rightarrow>
          if atype a = Str ''log'' then \<lparr>ident = 0, props = (props st)(''log'' \<mapsto> payload a)\<rparr>
          else st)"

definition log_config :: config where
  "log_config =
     \<lparr>otherReducer = OFn log_fn, partMap = [''counter'' \<mapsto> counter_part],
      parts = [counter_part]\<rparr>"

section \<open>The loop of the combined reducer\<close>

lemma loop_throws:
  "\<forall>(j, g) \<in> set pre. g (get_prop st j) a \<noteq> Undefined \<Longrightarrow> f (get_prop st k) a = Undefined \<Longrightarrow>
   reducer_loop S (pre @ (k, f) # post) st a m h = Inl (Error (undefined_message S a k))"
  by (induction pre arbitrary: m h) (auto simp: Let_def)

lemma loop_returns:
  "\<forall>(j, g) \<in> set final. g (get_prop st j) a \<noteq> Undefined \<Longrightarrow>
   reducer_loop S final st a m h =
     Inr (m ++ next_props final st a,
          h \<or> (\<exists>(j, g) \<in> set final. \<not> is_val (get_prop st j) (g (get_prop st j) a)))"
proof (induction final arbitrary: m h)
  case Nil
  then show ?case by (simp add: next_props_def)
next
  case (Cons e final)
  obtain k f where e: "e = (k, f)" by (cases e)
  have eq: "m(k \<mapsto> f (get_prop st k) a) ++ next_props final st a =
            m ++ next_props ((k, f) # final) st a"
    by (simp add: next_props_def map_add_def fun_eq_iff split: option.splits)
  show ?case using Cons e eq by (auto simp: Let_def is_val_def)
qed

lemma split_first_undefined:
  assumes "(k, f) \<in> set final" "f (get_prop st k) a = Undefined"
  shows "\<exists>pre k' f' post. final = pre @ (k', f') # post \<and>
           (\<forall>(j, g) \<in> set pre. g (get_prop st j) a \<noteq> Undefined) \<and>
           f' (get_prop st k') a = Undefined \<and> (k, f) \<in> set ((k', f') # post)"
proof -
  let ?P = "\<lambda>e. (snd e) (get_prop st (fst e)) a = Undefined"
  have "\<exists>e \<in> set final. ?P e" using assms by force
  then obtain pre e post where sp: "final = pre @ e # post" "?P e" "\<forall>y \<in> set pre. \<not> ?P y"
    by (auto dest!: split_list_first_prop)
  have "(k, f) \<notin> set pre" using sp(3) assms(2) by force
  then have "(k, f) \<in> set (e # post)" using assms(1) sp(1) by auto
  then show ?thesis using sp by (cases e) (auto simp: case_prod_beta)
qed

lemma dom_next_props: "dom (next_props final st a) = fst ` set final"
  by (force simp: next_props_def dom_map_of_conv_image_fst image_iff case_prod_beta)

lemma combine_throws_first:
  assumes "(k, f) \<in> set (finalReducers reducers)"
    and "f (get_prop (fst (default_state state n)) k) a = Undefined"
  shows "\<exists>pre k' f' post.
           finalReducers reducers = pre @ (k', f') # post \<and>
           (\<forall>(j, g) \<in> set pre. g (get_prop (fst (default_state state n)) j) a \<noteq> Undefined) \<and>
           f' (get_prop (fst (default_state state n)) k') a = Undefined \<and>
           (k, f) \<in> set ((k', f') # post) \<and>
           combineOtherReducers S reducers state a n = Inl (Error (undefined_message S a k'))"
proof -
  let ?st = "fst (default_state state n)"
  obtain pre k' f' post where sp: "finalReducers reducers = pre @ (k', f') # post"
      "\<forall>(j, g) \<in> set pre. g (get_prop ?st j) a \<noteq> Undefined"
      "f' (get_prop ?st k') a = Undefined" "(k, f) \<in> set ((k', f') # post)"
    using split_first_undefined [OF assms] by blast
  have "reducer_loop S (finalReducers reducers) ?st a Map.empty False =
        Inl (Error (undefined_message S a k'))"
    unfolding sp(1) using sp(2,3) by (rule loop_throws)
  then have "combineOtherReducers S reducers state a n = Inl (Error (undefined_message S a k'))"
    by (simp add: combineOtherReducers_def Let_def case_prod_beta)
  with sp show ?thesis by blast
qed

lemma combine_returns:
  assumes "\<forall>(j, g) \<in> set (finalReducers reducers).
             g (get_prop (fst (default_state state n)) j) a \<noteq> Undefined"
  shows "combineOtherReducers S reducers state a n =
           Inr (if \<exists>(j, g) \<in> set (finalReducers reducers).
                     \<not> is_val (get_prop (fst (default_state state n)) j)
                          (g (get_prop (fst (default_state state n)) j) a)
                then \<lparr>ident = snd (default_state state n),
                      props = next_props (finalReducers reducers) (fst (default_state state n)) a\<rparr>
                else fst (default_state state n),
                Suc (snd (default_state state n)))"
  using loop_returns [OF assms, where m = Map.empty and h = False and S = S]
  by (simp add: combineOtherReducers_def Let_def case_prod_beta)

section \<open>Claims about combineOtherReducers\<close>

text \<open>
  C1, amended. Let a key be retained in the effective reducer set, and let its reducer
  return \<^verbatim>\<open>undefined\<close> for the value the state holds at that key and the action. Then the
  combined reducer throws an \<^verbatim>\<open>Error\<close>. The reducers run in key order and the first one
  to return \<^verbatim>\<open>undefined\<close> ends the call: the message names that first key, which is
  the given key when no reducer before it returns \<^verbatim>\<open>undefined\<close>. The message holds the
  \<^verbatim>\<open>String\<close> of the action's type in quotes when the type is truthy, and
  \<^verbatim>\<open>(unknown type)\<close> otherwise.
\<close>

theorem combined_reducer_throws_at_first_undefined:
  assumes "(k, f) \<in> set (finalReducers reducers)"
    and "f (get_prop (fst (default_state state n)) k) a = Undefined"
  shows \<open>\<exists>pre k' f' post.
           finalReducers reducers = pre @ (k', f') # post \<and>
           (\<forall>(j, g) \<in> set pre. g (get_prop (fst (default_state state n)) j) a \<noteq> Undefined) \<and>
           f' (get_prop (fst (default_state state n)) k') a = Undefined \<and>
           (k, f) \<in> set ((k', f') # post) \<and>
           ((\<forall>(j, g) \<in> set (takeWhile (\<lambda>e. e \<noteq> (k, f)) (finalReducers reducers)).
               g (get_prop (fst (default_state state n)) j) a \<noteq> Undefined) \<longrightarrow> k' = k) \<and>
           combineOtherReducers S reducers state a n =
             Inl (Error
               (''When called with an action of type '' @
                (if truthy_val (atype a) then ''"'' @ S (atype a) @ ''"'' else ''(unknown type)'') @
                '', the part reducer for key "'' @ k' @ ''" returned undefined. '' @
                ''To ignore an action, you must explicitly return the previous state. '' @
                ''If you want this reducer to hold no value, '' @
                ''you can return null instead of undefined.''))\<close>
proof -
  let ?st = "fst (default_state state n)"
  let ?final = "finalReducers reducers"
  let ?defined = "\<lambda>es. \<forall>(j, g) \<in> set es. g (get_prop ?st j) a \<noteq> Undefined"
  let ?thrown = \<open>\<lambda>key. combineOtherReducers S reducers state a n =
             Inl (Error
               (''When called with an action of type '' @
                (if truthy_val (atype a) then ''"'' @ S (atype a) @ ''"'' else ''(unknown type)'') @
                '', the part reducer for key "'' @ key @ ''" returned undefined. '' @
                ''To ignore an action, you must explicitly return the previous state. '' @
                ''If you want this reducer to hold no value, '' @
                ''you can return null instead of undefined.''))\<close>
  obtain ys zs where sp: "?final = ys @ (k, f) # zs" "(k, f) \<notin> set ys"
    using split_list_first [OF assms(1)] by blast
  have T: "takeWhile (\<lambda>e. e \<noteq> (k, f)) ?final = ys"
    unfolding sp(1) using sp(2) by (subst takeWhile_append2) auto
  have thr: "?thrown k'"
    if "?final = pre @ (k', f') # post" "?defined pre" "f' (get_prop ?st k') a = Undefined"
    for pre k' f' post
  proof -
    have "reducer_loop S ?final ?st a Map.empty False = Inl (Error (undefined_message S a k'))"
      unfolding that(1) using that(2,3) by (rule loop_throws)
    then show ?thesis
      by (simp add: combineOtherReducers_def Let_def case_prod_beta undefined_message_def)
  qed
  have main: "\<exists>pre k' f' post. ?final = pre @ (k', f') # post \<and> ?defined pre \<and>
          f' (get_prop ?st k') a = Undefined \<and> (k, f) \<in> set ((k', f') # post) \<and>
          (?defined ys \<longrightarrow> k' = k) \<and> ?thrown k'"
  proof (cases "?defined ys")
    case True
    have t: "?thrown k" using sp(1) True assms(2) by (rule thr)
    have m: "(k, f) \<in> set ((k, f) # zs)" by simp
    show ?thesis using sp(1) True assms(2) m t by blast
  next
    case False
    obtain pre k' f' post where first: "?final = pre @ (k', f') # post" "?defined pre"
        "f' (get_prop ?st k') a = Undefined" "(k, f) \<in> set ((k', f') # post)"
      using split_first_undefined [OF assms] by blast
    have t: "?thrown k'" using first(1,2,3) by (rule thr)
    show ?thesis using first False t by blast
  qed
  show ?thesis unfolding T by (rule main)
qed

theorem combined_reducer_throws_at_first_undefined_witness:
  \<open>(''ui'', \<lambda>s a. s) \<in> set (finalReducers ex_bad_reducers) \<and>
   (\<lambda>s a. s) (get_prop (fst (default_state (Some ex_state) 1)) ''ui'') ex_action = Undefined \<and>
   takeWhile (\<lambda>e. e \<noteq> (''ui'', \<lambda>s a. s)) (finalReducers ex_bad_reducers) =
     [(''count'', \<lambda>s a. s)] \<and>
   (\<lambda>s a. s) (get_prop (fst (default_state (Some ex_state) 1)) ''count'') ex_action \<noteq> Undefined \<and>
   combineOtherReducers js_String ex_bad_reducers (Some ex_state) ex_action 1 =
     Inl (Error (''When called with an action of type "go", '' @
                 ''the part reducer for key "ui" returned undefined. '' @
                 ''To ignore an action, you must explicitly return the previous state. '' @
                 ''If you want this reducer to hold no value, '' @
                 ''you can return null instead of undefined.''))\<close>
proof -
  have h1: "(''ui'', \<lambda>s a. s) \<in> set (finalReducers ex_bad_reducers)"
    by (simp add: ex_bad_reducers_def)
  have h2: "(\<lambda>s (a::action). s) (get_prop (fst (default_state (Some ex_state) 1)) ''ui'')
              ex_action = Undefined"
    by (simp add: default_state_def get_prop_def object_prototype_keys_def ex_state_def)
  have h3: "takeWhile (\<lambda>e. e \<noteq> (''ui'', \<lambda>s (a::action). s)) (finalReducers ex_bad_reducers) =
              [(''count'', \<lambda>s a. s)]"
    by (simp add: ex_bad_reducers_def)
  have h4: "(\<lambda>s (a::action). s) (get_prop (fst (default_state (Some ex_state) 1)) ''count'')
              ex_action \<noteq> Undefined"
    by (simp add: default_state_def get_prop_def object_prototype_keys_def ex_state_def)
  show ?thesis
    using combined_reducer_throws_at_first_undefined
            [OF h1 h2, where a = ex_action and S = js_String] h1 h2 h3 h4
    by (simp add: combineOtherReducers_def ex_bad_reducers_def default_state_def get_prop_def object_prototype_keys_def
        ex_state_def ex_action_def undefined_message_def is_val_def)
qed

text \<open>
  As stated, C1 fails when two reducers return \<^verbatim>\<open>undefined\<close> and the action's type is
  the number zero: the hypothesis holds for the key \<^verbatim>\<open>b\<close>, and the message names the
  key \<^verbatim>\<open>a\<close> and holds no type.
\<close>

theorem second_undefined_key_counterexample:
  \<open>(''b'', \<lambda>s a. Undefined) \<in> set (finalReducers ex_undefined_reducers) \<and>
   get_prop ex_state ''b'' = Undefined \<and>
   atype zero_action = Num 0 \<and>
   combineOtherReducers js_String ex_undefined_reducers (Some ex_state) zero_action 1 =
     Inl (Error (''When called with an action of type (unknown type), '' @
                 ''the part reducer for key "a" returned undefined. '' @
                 ''To ignore an action, you must explicitly return the previous state. '' @
                 ''If you want this reducer to hold no value, '' @
                 ''you can return null instead of undefined.''))\<close>
  by (simp add: combineOtherReducers_def ex_undefined_reducers_def default_state_def get_prop_def object_prototype_keys_def
      ex_state_def zero_action_def undefined_message_def)

text \<open>
  C10. When the combined reducer returns after a change at some managed key, its result
  is the new object \<^verbatim>\<open>nextState\<close>: its keys are exactly the managed keys, so every key of
  the input state without a reducer in the map is absent from it.
\<close>

theorem combined_reducer_drops_unmanaged_keys:
  assumes "combineOtherReducers S reducers state a n = Inr (result, n')"
    and "\<exists>(k, f) \<in> set (finalReducers reducers).
           \<not> is_val (get_prop (fst (default_state state n)) k)
                (f (get_prop (fst (default_state state n)) k) a)"
  shows "dom (props result) = fst ` set (finalReducers reducers) \<and>
         (\<forall>key \<in> dom (props (fst (default_state state n))) - fst ` set (finalReducers reducers).
            props result key = None) \<and>
         ident result = snd (default_state state n)"
proof -
  let ?st = "fst (default_state state n)"
  let ?final = "finalReducers reducers"
  have def: "\<forall>(j, g) \<in> set ?final. g (get_prop ?st j) a \<noteq> Undefined"
  proof (rule ccontr)
    assume "\<not> ?thesis"
    then obtain k f where "(k, f) \<in> set ?final" "f (get_prop ?st k) a = Undefined" by auto
    from combine_throws_first [OF this, where S = S] show False using assms(1) by auto
  qed
  have "result = \<lparr>ident = snd (default_state state n), props = next_props ?final ?st a\<rparr>"
    using combine_returns [OF def] assms by simp
  then show ?thesis using dom_next_props [of ?final ?st a] by auto
qed

theorem combined_reducer_drops_unmanaged_keys_witness:
  "combineOtherReducers js_String ex_reducers (Some ex_state) ex_action 1 =
     Inr (\<lparr>ident = 1, props = [''count'' \<mapsto> Num 4, ''ui'' \<mapsto> Ref 7]\<rparr>, 2) \<and>
   \<not> is_val (get_prop (fst (default_state (Some ex_state) 1)) ''count'') (Num 4) \<and>
   ''stale'' \<in> dom (props ex_state) \<and>
   dom (props \<lparr>ident = 1, props = [''count'' \<mapsto> Num 4, ''ui'' \<mapsto> Ref 7]\<rparr>) =
     fst ` set (finalReducers ex_reducers) \<and>
   props \<lparr>ident = 1, props = [''count'' \<mapsto> Num 4, ''ui'' \<mapsto> Ref 7]\<rparr> ''stale'' = None"
proof -
  let ?r = "\<lparr>ident = 1, props = [''count'' \<mapsto> Num 4, ''ui'' \<mapsto> Ref 7]\<rparr>"
  have h1: "combineOtherReducers js_String ex_reducers (Some ex_state) ex_action 1 = Inr (?r, 2)"
    by (simp add: combineOtherReducers_def ex_reducers_def default_state_def get_prop_def object_prototype_keys_def
        ex_state_def ex_action_def is_val_def fun_eq_iff)
  have h2: "\<exists>(k, f) \<in> set (finalReducers ex_reducers).
              \<not> is_val (get_prop (fst (default_state (Some ex_state) 1)) k)
                   (f (get_prop (fst (default_state (Some ex_state) 1)) k) ex_action)"
    by (simp add: ex_reducers_def default_state_def get_prop_def object_prototype_keys_def ex_state_def ex_action_def
        is_val_def)
  have h3: "\<not> is_val (get_prop (fst (default_state (Some ex_state) 1)) ''count'') (Num 4)"
    by (simp add: default_state_def get_prop_def object_prototype_keys_def ex_state_def is_val_def)
  have h4: "''stale'' \<in> dom (props ex_state)"
    by (simp add: ex_state_def)
  show ?thesis
    using combined_reducer_drops_unmanaged_keys [OF h1 h2] h1 h3 h4
    by (simp add: default_state_def)
qed

section \<open>Claims about the root reducer\<close>

lemma createReducer_cases:
  assumes "createReducer V cfg = Inr R"
  shows "(\<not> truthy (otherReducer cfg) \<and> R = parts_only_reducer V cfg) \<or>
         (truthy (otherReducer cfg) \<and>
          (\<exists>A. additional V (otherReducer cfg) = Some A \<and> R = full_reducer V cfg A))"
  using assms by (auto simp: createReducer_def split: if_splits option.splits)

lemma part_action_step:
  assumes "createReducer V cfg = Inr R" "isPartAction V a"
  shows "R (Some st) a n = partsReducer (partMap cfg) st a n"
  using createReducer_cases [OF assms(1)] assms(2)
  by (auto simp: parts_only_reducer_def full_reducer_def)

lemma counter_created:
  "createReducer spec_validate counter_config = Inr (parts_only_reducer spec_validate counter_config)"
  by (simp add: createReducer_def counter_config_def)

lemma nested_created:
  "createReducer spec_validate nested_config = Inr (parts_only_reducer spec_validate nested_config)"
  by (simp add: createReducer_def nested_config_def)

lemma ui_created:
  "createReducer spec_validate ui_config =
     Inr (full_reducer spec_validate ui_config (combineOtherReducers js_String [(''ui'', Fn ui_reducer)]))"
  by (simp add: createReducer_def ui_config_def additional_def spec_validate_def)

lemma echo_created:
  "createReducer spec_validate echo_config =
     Inr (full_reducer spec_validate echo_config (combineOtherReducers js_String [(''last'', Fn echo_reducer)]))"
  by (simp add: createReducer_def echo_config_def additional_def spec_validate_def)

lemma log_created:
  "createReducer spec_validate log_config =
     Inr (full_reducer spec_validate log_config (\<lambda>state action n. Inr (log_fn state action, n)))"
  by (simp add: createReducer_def log_config_def additional_def spec_validate_def)

text \<open>
  A tag that is no key of the part map and no name of an inherited member is rejected
  by the guard, with the tag in the message.
\<close>

lemma unregistered_tag_rejected:
  assumes "createReducer V cfg = Inr R" and "isPartAction V a"
    and "partMap cfg (tag_of a) = None" and "tag_of a \<notin> set object_prototype_keys"
  shows "R (Some st) a n =
           Inl (ReferenceError
             (''Part with ID `'' @ tag_of a @
              ''` was not provided to the partitioner for inclusion in state. '' @
              ''Please add it to the list of parts provided to `createPartitioner`.''))"
  using part_action_step [OF assms(1,2)] assms(3,4)
  by (simp add: partsReducer_def read_part_def unregistered_message_def)

text \<open>
  C2. The claim fails in the code for a tag that is absent from the part map and names
  a member every object inherits: the read of the part map finds the member, the guard
  passes, and the call of \<^verbatim>\<open>part.r\<close> throws a \<^verbatim>\<open>TypeError\<close> that names no tag. Here the
  tag is \<^verbatim>\<open>constructor\<close>.
\<close>

theorem inherited_tag_throws_type_error:
  "createReducer spec_validate counter_config =
     Inr (parts_only_reducer spec_validate counter_config) \<and>
   isPartAction spec_validate constructor_action \<and>
   tag_of constructor_action = ''constructor'' \<and>
   partMap counter_config (tag_of constructor_action) = None \<and>
   parts_only_reducer spec_validate counter_config (Some counter_state) constructor_action 1 =
     Inl (TypeError ''part.r is not a function'')"
  by (simp add: counter_created)
     (simp add: parts_only_reducer_def partsReducer_def read_part_def spec_validate_def
        constructor_action_def counter_config_def tag_of_def object_prototype_keys_def)

text \<open>
  C4. For a part action that targets a registered part whose reducer returns a value
  that differs from the value at the owner key, the result is a new object (at the
  address just allocated, so another reference than the state) that holds the new value
  at the owner key and at every other key what the state held.
\<close>

theorem single_key_replacement:
  assumes "createReducer V cfg = Inr R" and "isPartAction V a"
    and "partMap cfg (tag_of a) = Some P"
    and "\<not> is_val (get_prop st (part_o P)) (part_r P (get_prop st (part_o P)) a)"
  shows "\<exists>st'. R (Some st) a n = Inr (st', Suc n) \<and> ident st' = n \<and>
           props st' (part_o P) = Some (part_r P (get_prop st (part_o P)) a) \<and>
           (\<forall>key. key \<noteq> part_o P \<longrightarrow> props st' key = props st key) \<and>
           (ident st < n \<longrightarrow> \<not> is_obj st st')"
  using part_action_step [OF assms(1,2)] assms(3,4)
  by (simp add: partsReducer_def read_part_def Let_def is_obj_def)

theorem single_key_replacement_witness:
  "createReducer spec_validate counter_config = Inr (parts_only_reducer spec_validate counter_config) \<and>
   isPartAction spec_validate counter_action \<and>
   partMap counter_config (tag_of counter_action) = Some counter_part \<and>
   \<not> is_val (get_prop counter_state (part_o counter_part))
        (part_r counter_part (get_prop counter_state (part_o counter_part)) counter_action) \<and>
   parts_only_reducer spec_validate counter_config (Some counter_state) counter_action 1 =
     Inr (\<lparr>ident = 1, props = [''counter'' \<mapsto> Num 6, ''extra'' \<mapsto> Null]\<rparr>, 2) \<and>
   ident counter_state < 1 \<and>
   \<not> is_obj counter_state \<lparr>ident = 1, props = [''counter'' \<mapsto> Num 6, ''extra'' \<mapsto> Null]\<rparr>"
proof -
  have h2: "isPartAction spec_validate counter_action"
    by (simp add: spec_validate_def counter_action_def)
  have h3: "partMap counter_config (tag_of counter_action) = Some counter_part"
    by (simp add: counter_config_def tag_of_def counter_action_def)
  have h4: "\<not> is_val (get_prop counter_state (part_o counter_part))
        (part_r counter_part (get_prop counter_state (part_o counter_part)) counter_action)"
    by (simp add: is_val_def get_prop_def object_prototype_keys_def counter_state_def counter_part_def counter_reducer_def counter_action_def)
  have "parts_only_reducer spec_validate counter_config (Some counter_state) counter_action 1 =
     Inr (\<lparr>ident = 1, props = [''counter'' \<mapsto> Num 6, ''extra'' \<mapsto> Null]\<rparr>, 2)"
    using single_key_replacement [OF counter_created h2 h3 h4, of 1]
    by (auto simp: counter_part_def counter_reducer_def counter_action_def get_prop_def object_prototype_keys_def counter_state_def fun_eq_iff)
  then show ?thesis using counter_created h2 h3 h4
    by (simp add: is_obj_def counter_state_def)
qed

section \<open>Identity stability\<close>

lemma keys_unchanged_iff:
  "keys_unchanged final st a \<longleftrightarrow>
     (\<forall>(k, f) \<in> set final. f (get_prop st k) a \<noteq> Undefined) \<and>
     \<not> (\<exists>(k, f) \<in> set final. \<not> is_val (get_prop st k) (f (get_prop st k) a))"
  by (auto simp: keys_unchanged_def list_all_iff)

lemma combine_unchanged:
  assumes "keys_unchanged (finalReducers reducers) st a"
  shows "combineOtherReducers S reducers (Some st) a n = Inr (st, Suc n)"
proof -
  have d: "fst (default_state (Some st) n) = st" "snd (default_state (Some st) n) = n"
    by (simp_all add: default_state_def)
  from assms have k: "\<forall>(j, g) \<in> set (finalReducers reducers). g (get_prop st j) a \<noteq> Undefined"
    and u: "\<not> (\<exists>(k, f) \<in> set (finalReducers reducers). \<not> is_val (get_prop st k) (f (get_prop st k) a))"
    by (simp_all add: keys_unchanged_iff)
  show ?thesis using combine_returns [where reducers = reducers and state = "Some st" and n = n and a = a and S = S] k u
    unfolding d by simp
qed

text \<open>
  C3, amended. If every reducer run for the action returns a value equal to its previous
  one, and the reducers of a reducers map return defined values, then the root reducer
  returns the state itself; a part action is taken to target a registered part. Likewise
  the combined reducer returns its state when every keyed reducer returns a defined
  value equal to the previous one.
\<close>

theorem identity_stability:
  "(createReducer V cfg = Inr R \<and> unchanged V cfg st a \<longrightarrow> (\<exists>n'. R (Some st) a n = Inr (st, n'))) \<and>
   (keys_unchanged (finalReducers reducers) st a \<longrightarrow>
      (\<exists>n'. combineOtherReducers S reducers (Some st) a n = Inr (st, n')))"
proof (intro conjI impI)
  assume "keys_unchanged (finalReducers reducers) st a"
  then show "\<exists>n'. combineOtherReducers S reducers (Some st) a n = Inr (st, n')"
    by (simp add: combine_unchanged)
next
  assume a: "createReducer V cfg = Inr R \<and> unchanged V cfg st a"
  then have R: "createReducer V cfg = Inr R" and u: "unchanged V cfg st a" by simp_all
  show "\<exists>n'. R (Some st) a n = Inr (st, n')"
  proof (cases "isPartAction V a")
    case True
    then show ?thesis using part_action_step [OF R True, of st n] u
      by (auto simp: unchanged_def partsReducer_def read_part_def Let_def split: option.splits)
  next
    case False
    from createReducer_cases [OF R] show ?thesis
    proof (elim disjE conjE exE)
      assume "R = parts_only_reducer V cfg"
      then show ?thesis using False by (simp add: parts_only_reducer_def)
    next
      fix A assume t: "truthy (otherReducer cfg)" and A: "additional V (otherReducer cfg) = Some A"
        and RA: "R = full_reducer V cfg A"
      show ?thesis
      proof (cases "isReducersMap V (otherReducer cfg)")
        case True
        then have "A = combineOtherReducers (String V) (own_entries (otherReducer cfg))"
          using A by (simp add: additional_def)
        moreover have "keys_unchanged (finalReducers (own_entries (otherReducer cfg))) st a"
          using u False t True by (simp add: unchanged_def)
        ultimately show ?thesis using RA False
          by (simp add: full_reducer_def combine_unchanged is_obj_def)
      next
        case nm: False
        then obtain f where f: "otherReducer cfg = OFn f" "A = (\<lambda>state action n. Inr (f state action, n))"
          using A by (auto simp: additional_def split: other_arg.splits)
        then show ?thesis using u False t nm RA
          by (simp add: unchanged_def full_reducer_def)
      qed
    qed
  qed
qed

theorem identity_stability_witness:
  "createReducer spec_validate ui_config =
     Inr (full_reducer spec_validate ui_config (combineOtherReducers js_String [(''ui'', Fn ui_reducer)])) \<and>
   unchanged spec_validate ui_config ui_state noop_action \<and>
   full_reducer spec_validate ui_config (combineOtherReducers js_String [(''ui'', Fn ui_reducer)])
     (Some ui_state) noop_action 1 = Inr (ui_state, 2) \<and>
   keys_unchanged (finalReducers [(''ui'', Fn ui_reducer)]) ui_state noop_action \<and>
   combineOtherReducers js_String [(''ui'', Fn ui_reducer)] (Some ui_state) noop_action 1 = Inr (ui_state, 2)"
proof -
  let ?R = "full_reducer spec_validate ui_config (combineOtherReducers js_String [(''ui'', Fn ui_reducer)])"
  have k: "keys_unchanged (finalReducers [(''ui'', Fn ui_reducer)]) ui_state noop_action"
    by (simp add: keys_unchanged_def ui_reducer_def get_prop_def object_prototype_keys_def ui_state_def is_val_def)
  have u: "unchanged spec_validate ui_config ui_state noop_action"
    using k by (simp add: unchanged_def spec_validate_def noop_action_def ui_config_def)
  have c: "combineOtherReducers js_String [(''ui'', Fn ui_reducer)] (Some ui_state) noop_action 1 = Inr (ui_state, 2)"
    by (simp add: combineOtherReducers_def default_state_def ui_reducer_def get_prop_def object_prototype_keys_def ui_state_def is_val_def)
  have r: "?R (Some ui_state) noop_action 1 = Inr (ui_state, 2)"
    by (simp add: full_reducer_def is_obj_def spec_validate_def noop_action_def
        combineOtherReducers_def default_state_def ui_reducer_def get_prop_def object_prototype_keys_def ui_state_def
        is_val_def)
  show ?thesis
    using identity_stability [where V = spec_validate and cfg = ui_config and R = ?R
        and st = ui_state and a = noop_action and n = 1 and S = js_String
        and reducers = "[(''ui'', Fn ui_reducer)]"]
      ui_created k u c r by simp
qed

text \<open>
  As stated, C3 fails for a keyed reducer that returns its argument when the state has
  no value at the key: \<^verbatim>\<open>undefined\<close> is equal to the previous value, and the combined
  reducer throws instead of returning the state.
\<close>

theorem identity_stability_counterexample:
  "is_val (get_prop ex_state ''ui'') ((\<lambda>s a. s) (get_prop ex_state ''ui'') ex_action) \<and>
   is_val (get_prop ex_state ''count'') ((\<lambda>s a. s) (get_prop ex_state ''count'') ex_action) \<and>
   finalReducers ex_bad_reducers = [(''count'', \<lambda>s a. s), (''ui'', \<lambda>s a. s)] \<and>
   combineOtherReducers js_String ex_bad_reducers (Some ex_state) ex_action 1 \<noteq> Inr (ex_state, 2) \<and>
   combineOtherReducers js_String ex_bad_reducers (Some ex_state) ex_action 1 =
     Inl (Error (undefined_message js_String ex_action ''ui''))"
  by (simp add: ex_bad_reducers_def combineOtherReducers_def default_state_def is_val_def get_prop_def object_prototype_keys_def ex_state_def)

section \<open>Validation of the other reducer\<close>

lemma typeof_function: "typeof x = ''function'' \<longleftrightarrow> (\<exists>f. x = OFn f)"
  by (cases x) simp_all

text \<open>
  C8, amended. For an \<^verbatim>\<open>otherReducer\<close> that is truthy, is no reducers map and is no
  function, \<^verbatim>\<open>createReducer\<close> throws a \<^verbatim>\<open>ReferenceError\<close> whose message ends with the
  \<^verbatim>\<open>typeof\<close> of the argument. A falsy argument is taken as no other reducer at all:
  the reducer over the parts alone is returned. These are the only ways it throws.
\<close>

theorem invalid_other_reducer:
  "(truthy (otherReducer cfg) \<and> \<not> isReducersMap V (otherReducer cfg) \<and>
      typeof (otherReducer cfg) \<noteq> ''function'' \<longrightarrow>
      createReducer V cfg =
        Inl (ReferenceError
          (''`otherReducer` provided was expected to be a function or a map of reducers; '' @
           ''received '' @ typeof (otherReducer cfg)))) \<and>
   (\<not> truthy (otherReducer cfg) \<longrightarrow> createReducer V cfg = Inr (parts_only_reducer V cfg)) \<and>
   (isl (createReducer V cfg) \<longleftrightarrow>
      truthy (otherReducer cfg) \<and> \<not> isReducersMap V (otherReducer cfg) \<and>
      typeof (otherReducer cfg) \<noteq> ''function'')"
  by (cases "otherReducer cfg") (auto simp: createReducer_def additional_def invalid_message_def)

theorem invalid_other_reducer_witness:
  "truthy (otherReducer number_config) \<and> \<not> isReducersMap spec_validate (otherReducer number_config) \<and>
   typeof (otherReducer number_config) \<noteq> ''function'' \<and>
   createReducer spec_validate number_config =
     Inl (ReferenceError ''`otherReducer` provided was expected to be a function or a map of reducers; received number'') \<and>
   \<not> truthy (otherReducer null_config) \<and>
   createReducer spec_validate null_config = Inr (parts_only_reducer spec_validate null_config)"
  using invalid_other_reducer [of number_config spec_validate] invalid_other_reducer [of null_config spec_validate]
  by (simp add: number_config_def null_config_def spec_validate_def invalid_message_def)

text \<open>
  As stated, C8 fails for \<^verbatim>\<open>null\<close>: neither a function nor a reducers map, and a
  reducer is returned.
\<close>

theorem falsy_other_reducer_counterexample:
  "\<not> isReducersMap spec_validate (otherReducer null_config) \<and>
   typeof (otherReducer null_config) \<noteq> ''function'' \<and>
   createReducer spec_validate null_config = Inr (parts_only_reducer spec_validate null_config)"
  by (simp add: null_config_def spec_validate_def createReducer_def)

section \<open>The initial state of the parts and the keys of the state\<close>

lemma find_snoc:
  "find P (xs @ [x]) = (case find P xs of None \<Rightarrow> (if P x then Some x else None) | Some y \<Rightarrow> Some y)"
  by (induction xs) auto

lemma initial_loop_find:
  "initial_loop ps m =
     (\<lambda>key. if key = ''__proto__'' then m key
            else (case find (\<lambda>p. part_n p = key) (rev ps) of
                    None \<Rightarrow> m key
                  | Some p \<Rightarrow> Some (part_r p Undefined empty_action)))"
  by (induction ps arbitrary: m)
     (auto simp: fun_eq_iff find_snoc assign_def split: option.splits)

lemma map_add_keeps: "m x = Some y \<Longrightarrow> \<exists>z. (m ++ m') x = Some z"
  by (cases "m' x") (simp_all add: map_add_def)

lemma partsReducer_dom:
  "partsReducer pm st a n = Inr (st', n') \<Longrightarrow> dom (props st) \<subseteq> dom (props st')"
  by (auto simp: partsReducer_def read_part_def Let_def split: member.splits if_splits)

lemma getInitialState_props:
  "getInitialState ps n =
     (\<lparr>ident = n,
       props = (\<lambda>key. if key = ''__proto__'' then None
                       else map_option (\<lambda>p. part_r p Undefined empty_action)
                              (find (\<lambda>p. part_n p = key) (rev ps)))\<rparr>, Suc n)"
  by (auto simp: getInitialState_def assign_def initial_loop_find fun_eq_iff split: option.splits)

lemma reducer_keeps_keys:
  assumes "createReducer V cfg = Inr R" and "R (Some st) a n = Inr (st', n')"
  shows "dom (props st) \<subseteq> dom (props st')"
proof -
  from createReducer_cases [OF assms(1)] show ?thesis
  proof (elim disjE conjE exE)
    assume R: "R = parts_only_reducer V cfg"
    show ?thesis
      using assms(2) partsReducer_dom [of "partMap cfg" st a n st' n']
      by (auto simp: R parts_only_reducer_def split: if_splits)
  next
    fix A assume R: "R = full_reducer V cfg A"
    show ?thesis
      using assms(2) partsReducer_dom [of "partMap cfg" st a n st' n']
      by (auto simp: R full_reducer_def intro!: map_add_keeps split: if_splits sum.splits)
  qed
qed

text \<open>
  C6. The claim fails in the code for a part whose owner key is not its name: the loop
  assigns under the name \<^verbatim>\<open>part.n\<close>, and nothing is stored under the owner key, the key
  under which \<^verbatim>\<open>partsReducer\<close> reads and writes the state of the same part. Here the
  part has the name \<^verbatim>\<open>child\<close> and the owner key \<^verbatim>\<open>parent\<close>.
\<close>

theorem getInitialState_stores_under_name:
  "part_n nested_part = ''child'' \<and> part_o nested_part = ''parent'' \<and>
   part_r nested_part Undefined empty_action = Num 1 \<and>
   getInitialState [nested_part] 0 = (\<lparr>ident = 0, props = [''child'' \<mapsto> Num 1]\<rparr>, 1) \<and>
   props (fst (getInitialState [nested_part] 0)) (part_o nested_part) = None"
  by (simp add: getInitialState_def assign_def nested_part_def empty_action_def fun_eq_iff)

text \<open>
  C7. By the same defect the owner key of such a part is no key of the state after the
  initialisation call; the part's own action then adds it beside the name.
\<close>

theorem owner_key_absent_after_initialisation:
  "createReducer spec_validate nested_config =
     Inr (parts_only_reducer spec_validate nested_config) \<and>
   nested_part \<in> set (parts nested_config) \<and>
   parts_only_reducer spec_validate nested_config None noop_action 0 =
     Inr (\<lparr>ident = 0, props = [''child'' \<mapsto> Num 1]\<rparr>, 1) \<and>
   part_o nested_part \<notin> dom (props \<lparr>ident = 0, props = [''child'' \<mapsto> Num 1]\<rparr>) \<and>
   parts_only_reducer spec_validate nested_config
     (Some \<lparr>ident = 0, props = [''child'' \<mapsto> Num 1]\<rparr>) child_action 1 =
     Inr (\<lparr>ident = 1, props = [''child'' \<mapsto> Num 1, ''parent'' \<mapsto> Num 1]\<rparr>, 2)"
  by (simp add: nested_created)
     (simp add: parts_only_reducer_def partsReducer_def read_part_def nested_config_def
        getInitialState_def assign_def nested_part_def spec_validate_def noop_action_def
        child_action_def tag_of_def get_prop_def object_prototype_keys_def is_val_def Let_def fun_eq_iff)

section \<open>The initial state and the triggering action\<close>

lemma next_props_cong:
  assumes "\<forall>(k, f) \<in> set final. f (get_prop s1 k) a1 = f (get_prop s2 k) a2"
  shows "next_props final s1 a1 = next_props final s2 a2"
proof -
  have "map (\<lambda>(k, f). (k, f (get_prop s1 k) a1)) (rev final) =
        map (\<lambda>(k, f). (k, f (get_prop s2 k) a2)) (rev final)"
  proof (rule map_cong [OF refl])
    fix x assume "x \<in> set (rev final)"
    then show "(case x of (k, f) \<Rightarrow> (k, f (get_prop s1 k) a1)) =
               (case x of (k, f) \<Rightarrow> (k, f (get_prop s2 k) a2))"
      using assms by (cases x) auto
  qed
  then show ?thesis unfolding next_props_def by (rule arg_cong)
qed

lemma combine_init_independent:
  assumes "list_all (\<lambda>(k, f). f (initial_read k) a1 \<noteq> Undefined \<and>
                            f (initial_read k) a1 = f (initial_read k) a2)
             (finalReducers reducers)"
  shows "combineOtherReducers S reducers None a1 m = combineOtherReducers S reducers None a2 m"
proof -
  let ?st = "fst (default_state None m)"
  have g: "get_prop ?st k = initial_read k" for k
    by (simp add: default_state_def get_prop_def object_prototype_keys_def initial_read_def)
  have e: "\<forall>(k, f) \<in> set (finalReducers reducers).
             f (initial_read k) a1 \<noteq> Undefined \<and> f (initial_read k) a1 = f (initial_read k) a2"
    using assms by (simp add: list_all_iff)
  have d1: "\<forall>(j, f) \<in> set (finalReducers reducers). f (get_prop ?st j) a1 \<noteq> Undefined"
    using e by (auto simp: g)
  have d2: "\<forall>(j, f) \<in> set (finalReducers reducers). f (get_prop ?st j) a2 \<noteq> Undefined"
    using e by (auto simp: g)
  have n: "next_props (finalReducers reducers) ?st a1 = next_props (finalReducers reducers) ?st a2"
    using e by (intro next_props_cong) (auto simp: g)
  have c: "(\<exists>(j, f) \<in> set (finalReducers reducers). \<not> is_val (get_prop ?st j) (f (get_prop ?st j) a1)) =
           (\<exists>(j, f) \<in> set (finalReducers reducers). \<not> is_val (get_prop ?st j) (f (get_prop ?st j) a2))"
  proof (rule bex_cong [OF refl])
    fix x assume "x \<in> set (finalReducers reducers)"
    then show "(case x of (j, f) \<Rightarrow> \<not> is_val (get_prop ?st j) (f (get_prop ?st j) a1)) =
               (case x of (j, f) \<Rightarrow> \<not> is_val (get_prop ?st j) (f (get_prop ?st j) a2))"
      using e by (cases x) (auto simp: g)
  qed
  show ?thesis
    unfolding combine_returns [OF d1] combine_returns [OF d2] n c ..
qed

lemma additional_cases:
  assumes "additional V other = Some A"
  shows "(isReducersMap V other \<and> A = combineOtherReducers (String V) (own_entries other)) \<or>
         (\<not> isReducersMap V other \<and> (\<exists>f. other = OFn f \<and> A = (\<lambda>state action n. Inr (f state action, n))))"
  using assms by (auto simp: additional_def split: if_splits other_arg.splits)

text \<open>
  C5, amended. Without an other reducer, the initialisation call returns the initial
  state of the parts for every action that is no part action. With an other reducer, two
  actions give the same result whenever the other reducer initialises alike for both.
\<close>

theorem initial_state_action_independence:
  assumes "createReducer V cfg = Inr R"
  shows "(\<not> truthy (otherReducer cfg) \<and> \<not> isPartAction V a1 \<and> \<not> isPartAction V a2 \<longrightarrow>
            R None a1 n = Inr (getInitialState (parts cfg) n) \<and>
            R None a2 n = Inr (getInitialState (parts cfg) n)) \<and>
         (truthy (otherReducer cfg) \<and> other_init_agrees V (otherReducer cfg) a1 a2 \<longrightarrow>
            R None a1 n = R None a2 n)"
proof -
  from createReducer_cases [OF assms] show ?thesis
  proof (elim disjE conjE exE)
    assume "\<not> truthy (otherReducer cfg)" "R = parts_only_reducer V cfg"
    then show ?thesis by (simp add: parts_only_reducer_def case_prod_beta)
  next
    fix A assume t: "truthy (otherReducer cfg)" and A: "additional V (otherReducer cfg) = Some A"
      and RA: "R = full_reducer V cfg A"
    have "A None a1 m = A None a2 m" if "other_init_agrees V (otherReducer cfg) a1 a2" for m
      using additional_cases [OF A] that
      by (auto simp: other_init_agrees_def combine_init_independent)
    then show ?thesis using t RA by (simp add: full_reducer_def)
  qed
qed

theorem initial_state_action_independence_witness:
  "createReducer spec_validate counter_config = Inr (parts_only_reducer spec_validate counter_config) \<and>
   \<not> truthy (otherReducer counter_config) \<and>
   \<not> isPartAction spec_validate noop_action \<and> \<not> isPartAction spec_validate ex_action \<and>
   parts_only_reducer spec_validate counter_config None noop_action 0 =
     Inr (\<lparr>ident = 0, props = [''counter'' \<mapsto> Num 0]\<rparr>, 1) \<and>
   parts_only_reducer spec_validate counter_config None ex_action 0 =
     Inr (\<lparr>ident = 0, props = [''counter'' \<mapsto> Num 0]\<rparr>, 1) \<and>
   createReducer spec_validate ui_config =
     Inr (full_reducer spec_validate ui_config (combineOtherReducers js_String [(''ui'', Fn ui_reducer)])) \<and>
   truthy (otherReducer ui_config) \<and>
   other_init_agrees spec_validate (otherReducer ui_config) counter_action ex_action \<and>
   full_reducer spec_validate ui_config (combineOtherReducers js_String [(''ui'', Fn ui_reducer)])
     None counter_action 0 =
   full_reducer spec_validate ui_config (combineOtherReducers js_String [(''ui'', Fn ui_reducer)])
     None ex_action 0"
proof -
  have h1: "\<not> truthy (otherReducer counter_config)" by (simp add: counter_config_def)
  have h2: "\<not> isPartAction spec_validate noop_action" "\<not> isPartAction spec_validate ex_action"
    by (simp_all add: spec_validate_def noop_action_def ex_action_def)
  have h3: "truthy (otherReducer ui_config)" by (simp add: ui_config_def)
  have h4: "other_init_agrees spec_validate (otherReducer ui_config) counter_action ex_action"
    by (simp add: other_init_agrees_def spec_validate_def ui_config_def ui_reducer_def)
  have g: "getInitialState (parts counter_config) 0 = (\<lparr>ident = 0, props = [''counter'' \<mapsto> Num 0]\<rparr>, 1)"
    by (simp add: getInitialState_def assign_def counter_config_def counter_part_def counter_reducer_def
        empty_action_def fun_eq_iff)
  show ?thesis
    using initial_state_action_independence [OF counter_created, where ?a1.0 = noop_action and ?a2.0 = ex_action and n = 0]
      initial_state_action_independence [OF ui_created, where ?a1.0 = counter_action and ?a2.0 = ex_action and n = 0]
      counter_created ui_created h1 h2 h3 h4 g
    by simp
qed

text \<open>
  As stated, C5 fails in the first scenario of the specification: without an other
  reducer a part action is applied to the initial state in the same call.
\<close>

theorem initial_state_depends_on_action:
  "createReducer spec_validate counter_config = Inr (parts_only_reducer spec_validate counter_config) \<and>
   parts_only_reducer spec_validate counter_config None counter_action 0 =
     Inr (\<lparr>ident = 1, props = [''counter'' \<mapsto> Num 1]\<rparr>, 2) \<and>
   parts_only_reducer spec_validate counter_config None noop_action 0 =
     Inr (\<lparr>ident = 0, props = [''counter'' \<mapsto> Num 0]\<rparr>, 1) \<and>
   parts_only_reducer spec_validate counter_config None counter_action 0 \<noteq>
     parts_only_reducer spec_validate counter_config None noop_action 0"
proof -
  have 1: "parts_only_reducer spec_validate counter_config None counter_action 0 =
     Inr (\<lparr>ident = 1, props = [''counter'' \<mapsto> Num 1]\<rparr>, 2)"
    by (simp add: parts_only_reducer_def getInitialState_def assign_def partsReducer_def read_part_def spec_validate_def
        counter_action_def counter_config_def tag_of_def counter_part_def counter_reducer_def
        get_prop_def object_prototype_keys_def is_val_def empty_action_def fun_eq_iff)
  have 2: "parts_only_reducer spec_validate counter_config None noop_action 0 =
     Inr (\<lparr>ident = 0, props = [''counter'' \<mapsto> Num 0]\<rparr>, 1)"
    by (simp add: parts_only_reducer_def getInitialState_def assign_def spec_validate_def
        noop_action_def counter_config_def counter_part_def counter_reducer_def
        empty_action_def fun_eq_iff)
  show ?thesis unfolding 1 2 using counter_created by simp
qed

text \<open>
  With an other reducer, its result for the triggering action is part of the state.
\<close>

theorem initial_state_depends_on_other_reducer:
  "createReducer spec_validate echo_config =
     Inr (full_reducer spec_validate echo_config (combineOtherReducers js_String [(''last'', Fn echo_reducer)])) \<and>
   full_reducer spec_validate echo_config (combineOtherReducers js_String [(''last'', Fn echo_reducer)])
     None ex_action 0 = Inr (\<lparr>ident = 0, props = [''last'' \<mapsto> Str ''go'']\<rparr>, 4) \<and>
   full_reducer spec_validate echo_config (combineOtherReducers js_String [(''last'', Fn echo_reducer)])
     None noop_action 0 = Inr (\<lparr>ident = 0, props = [''last'' \<mapsto> Str ''noop'']\<rparr>, 4)"
  by (simp add: echo_created)
     (simp add: full_reducer_def getInitialState_def assign_def echo_config_def combineOtherReducers_def
        default_state_def echo_reducer_def get_prop_def object_prototype_keys_def is_val_def ex_action_def noop_action_def
        fun_eq_iff)

section \<open>Determinism of replays\<close>

lemma get_prop_cong: "props s1 = props s2 \<Longrightarrow> get_prop s1 = get_prop s2"
  by (simp add: get_prop_def fun_eq_iff)

lemma reducer_loop_cong:
  "props s1 = props s2 \<Longrightarrow> reducer_loop S final s1 a m h = reducer_loop S final s2 a m h"
  by (induction final arbitrary: m h) (auto simp: Let_def get_prop_cong [of s1 s2])

lemma partsReducer_agrees:
  assumes "props s1 = props s2"
  shows "step_agrees (Some s1) c1 (Some s2) c2 (partsReducer pm s1 a c1) (partsReducer pm s2 a c2)"
  using assms get_prop_cong [OF assms]
  by (auto simp: step_agrees_def partsReducer_def read_part_def Let_def split: member.splits)

lemma combine_shape:
  "(\<exists>e. \<forall>s c. props s = props (st::obj) \<longrightarrow> combineOtherReducers S reducers (Some s) a c = Inl e) \<or>
   (\<forall>s c. props s = props st \<longrightarrow> combineOtherReducers S reducers (Some s) a c = Inr (s, Suc c)) \<or>
   (\<exists>P. \<forall>s c. props s = props st \<longrightarrow>
           combineOtherReducers S reducers (Some s) a c = Inr (\<lparr>ident = c, props = P\<rparr>, Suc c))"
proof -
  let ?L = "\<lambda>s. reducer_loop S (finalReducers reducers) s a Map.empty False"
  have c: "combineOtherReducers S reducers (Some s) a c =
             (case ?L st of
                Inl e \<Rightarrow> Inl e
              | Inr (nextState, hasChanged) \<Rightarrow>
                  Inr (if hasChanged then \<lparr>ident = c, props = nextState\<rparr> else s, Suc c))"
    if "props s = props st" for s c
  proof -
    have "?L s = ?L st" using that by (rule reducer_loop_cong)
    then show ?thesis by (simp add: combineOtherReducers_def default_state_def)
  qed
  show ?thesis
  proof (cases "?L st")
    case (Inl e)
    then have "\<forall>s c. props s = props st \<longrightarrow> combineOtherReducers S reducers (Some s) a c = Inl e"
      by (simp add: c)
    then show ?thesis by blast
  next
    case (Inr r)
    obtain P h where r: "r = (P, h)" by (cases r)
    show ?thesis
    proof (cases h)
      case True
      then have "\<forall>s c. props s = props st \<longrightarrow>
             combineOtherReducers S reducers (Some s) a c = Inr (\<lparr>ident = c, props = P\<rparr>, Suc c)"
        using Inr r by (simp add: c)
      then show ?thesis by blast
    next
      case False
      then have "\<forall>s c. props s = props st \<longrightarrow>
             combineOtherReducers S reducers (Some s) a c = Inr (s, Suc c)"
        using Inr r by (simp add: c)
      then show ?thesis by blast
    qed
  qed
qed

lemma full_combine_agrees:
  assumes p: "props s1 = props s2" and i: "ident s1 < c1" "ident s2 < c2"
  shows "step_agrees (Some s1) c1 (Some s2) c2
           (full_reducer V cfg (combineOtherReducers S reducers) (Some s1) a c1)
           (full_reducer V cfg (combineOtherReducers S reducers) (Some s2) a c2)"
proof (cases "isPartAction V a")
  case True
  then show ?thesis using partsReducer_agrees [OF p] by (simp add: full_reducer_def)
next
  case False
  from combine_shape [where st = s2 and reducers = reducers and a = a and S = S] show ?thesis
  proof (elim disjE exE)
    fix e assume "\<forall>s c. props s = props s2 \<longrightarrow> combineOtherReducers S reducers (Some s) a c = Inl e"
    then show ?thesis using p False by (simp add: full_reducer_def step_agrees_def)
  next
    assume "\<forall>s c. props s = props s2 \<longrightarrow> combineOtherReducers S reducers (Some s) a c = Inr (s, Suc c)"
    then show ?thesis using p False by (simp add: full_reducer_def step_agrees_def is_obj_def)
  next
    fix P assume "\<forall>s c. props s = props s2 \<longrightarrow>
           combineOtherReducers S reducers (Some s) a c = Inr (\<lparr>ident = c, props = P\<rparr>, Suc c)"
    then show ?thesis using p False i by (simp add: full_reducer_def step_agrees_def is_obj_def)
  qed
qed

lemma full_fn_agrees:
  assumes p: "props s1 = props s2"
    and f: "props (f (Some s1) a) = props (f (Some s2) a)"
           "is_obj s1 (f (Some s1) a) = is_obj s2 (f (Some s2) a)"
  shows "step_agrees (Some s1) c1 (Some s2) c2
           (full_reducer V cfg (\<lambda>state action n. Inr (f state action, n)) (Some s1) a c1)
           (full_reducer V cfg (\<lambda>state action n. Inr (f state action, n)) (Some s2) a c2)"
proof (cases "isPartAction V a")
  case True
  then show ?thesis using partsReducer_agrees [OF p] by (simp add: full_reducer_def)
next
  case False
  then show ?thesis using p f by (simp add: full_reducer_def step_agrees_def)
qed

lemma parts_only_agrees:
  assumes p: "props s1 = props s2"
  shows "step_agrees (Some s1) c1 (Some s2) c2
           (parts_only_reducer V cfg (Some s1) a c1) (parts_only_reducer V cfg (Some s2) a c2)"
  using partsReducer_agrees [OF p, of c1 c2 "partMap cfg" a] p
  by (simp add: parts_only_reducer_def step_agrees_def)

lemma step_agrees_fresh:
  assumes "step_agrees (Some s1) (Suc c1) (Some s2) (Suc c2) x y" "ident s1 = c1" "ident s2 = c2"
  shows "step_agrees None c1 None c2 x y"
  using assms by (auto simp: step_agrees_def split: sum.splits)

lemma parts_only_init_agrees:
  "step_agrees None c1 None c2 (parts_only_reducer V cfg None a c1) (parts_only_reducer V cfg None a c2)"
proof (cases "isPartAction V a")
  case True
  let ?i1 = "\<lparr>ident = c1, props = initial_loop (parts cfg) Map.empty\<rparr>"
  let ?i2 = "\<lparr>ident = c2, props = initial_loop (parts cfg) Map.empty\<rparr>"
  have "step_agrees (Some ?i1) (Suc c1) (Some ?i2) (Suc c2)
          (partsReducer (partMap cfg) ?i1 a (Suc c1)) (partsReducer (partMap cfg) ?i2 a (Suc c2))"
    by (rule partsReducer_agrees) simp
  then have "step_agrees None c1 None c2
          (partsReducer (partMap cfg) ?i1 a (Suc c1)) (partsReducer (partMap cfg) ?i2 a (Suc c2))"
    by (rule step_agrees_fresh) simp_all
  then show ?thesis using True by (simp add: parts_only_reducer_def getInitialState_def assign_def)
next
  case False
  then show ?thesis by (simp add: parts_only_reducer_def getInitialState_def assign_def step_agrees_def)
qed

lemma combine_init_shape:
  "(\<exists>e. \<forall>c. combineOtherReducers S reducers None a c = Inl e) \<or>
   (\<exists>P. \<forall>c. \<exists>i. combineOtherReducers S reducers None a c =
                   Inr (\<lparr>ident = i, props = P\<rparr>, Suc (Suc c)))"
proof -
  let ?L = "\<lambda>s. reducer_loop S (finalReducers reducers) s a Map.empty False"
  let ?z = "\<lparr>ident = 0, props = Map.empty\<rparr>"
  have c: "combineOtherReducers S reducers None a c =
             (case ?L ?z of
                Inl e \<Rightarrow> Inl e
              | Inr (nextState, hasChanged) \<Rightarrow>
                  Inr (if hasChanged then \<lparr>ident = Suc c, props = nextState\<rparr>
                       else \<lparr>ident = c, props = Map.empty\<rparr>, Suc (Suc c)))" for c
  proof -
    have "?L \<lparr>ident = c, props = Map.empty\<rparr> = ?L ?z" by (rule reducer_loop_cong) simp
    then show ?thesis by (simp add: combineOtherReducers_def default_state_def)
  qed
  show ?thesis
  proof (cases "?L ?z")
    case (Inl e)
    then have "\<forall>c. combineOtherReducers S reducers None a c = Inl e" by (simp add: c)
    then show ?thesis by blast
  next
    case (Inr r)
    obtain P h where r: "r = (P, h)" by (cases r)
    show ?thesis
    proof (cases h)
      case True
      then have "\<forall>c. \<exists>i. combineOtherReducers S reducers None a c =
                          Inr (\<lparr>ident = i, props = P\<rparr>, Suc (Suc c))"
        using Inr r by (simp add: c)
      then show ?thesis by blast
    next
      case False
      then have "\<forall>c. \<exists>i. combineOtherReducers S reducers None a c =
                          Inr (\<lparr>ident = i, props = Map.empty\<rparr>, Suc (Suc c))"
        using Inr r by (simp add: c)
      then show ?thesis by blast
    qed
  qed
qed

lemma full_combine_init_agrees:
  "step_agrees None c1 None c2
     (full_reducer V cfg (combineOtherReducers S reducers) None a c1)
     (full_reducer V cfg (combineOtherReducers S reducers) None a c2)"
proof -
  from combine_init_shape [where reducers = reducers and a = a and S = S] show ?thesis
  proof (elim disjE exE)
    fix e assume "\<forall>c. combineOtherReducers S reducers None a c = Inl e"
    then show ?thesis by (simp add: full_reducer_def getInitialState_def assign_def step_agrees_def)
  next
    fix P assume h: "\<forall>c. \<exists>i. combineOtherReducers S reducers None a c = Inr (\<lparr>ident = i, props = P\<rparr>, Suc (Suc c))"
    obtain i1 where 1: "combineOtherReducers S reducers None a (Suc (Suc c1)) = Inr (\<lparr>ident = i1, props = P\<rparr>, Suc (Suc (Suc (Suc c1))))"
      using h by blast
    obtain i2 where 2: "combineOtherReducers S reducers None a (Suc (Suc c2)) = Inr (\<lparr>ident = i2, props = P\<rparr>, Suc (Suc (Suc (Suc c2))))"
      using h by blast
    show ?thesis using 1 2 by (simp add: full_reducer_def getInitialState_def assign_def step_agrees_def)
  qed
qed

lemma full_fn_init_agrees:
  "step_agrees None c1 None c2
     (full_reducer V cfg (\<lambda>state action n. Inr (f state action, n)) None a c1)
     (full_reducer V cfg (\<lambda>state action n. Inr (f state action, n)) None a c2)"
  by (simp add: full_reducer_def getInitialState_def assign_def step_agrees_def)

lemma root_step_agrees:
  assumes R: "createReducer V cfg = Inr R"
    and pure: "other_ignores_addresses V (otherReducer cfg) n1 n2"
    and rel: "map_option props t1 = map_option props t2"
             "t1 = t2 \<or> fresh_from n1 t1 \<and> fresh_from n2 t2"
             "\<forall>s. t1 = Some s \<longrightarrow> ident s < c1" "\<forall>s. t2 = Some s \<longrightarrow> ident s < c2"
  shows "step_agrees t1 c1 t2 c2 (R t1 a c1) (R t2 a c2)"
proof (cases t1)
  case None
  then have t: "t1 = None" "t2 = None" using rel(1) by auto
  from createReducer_cases [OF R] show ?thesis
  proof (elim disjE conjE exE)
    assume "R = parts_only_reducer V cfg"
    then show ?thesis using t by (simp add: parts_only_init_agrees)
  next
    fix A assume A: "additional V (otherReducer cfg) = Some A" and RA: "R = full_reducer V cfg A"
    from additional_cases [OF A] show ?thesis
      using RA t by (auto simp: full_combine_init_agrees full_fn_init_agrees)
  qed
next
  case (Some s1)
  then obtain s2 where t: "t1 = Some s1" "t2 = Some s2" and p: "props s1 = props s2"
    using rel(1) by (cases t2) auto
  have i: "ident s1 < c1" "ident s2 < c2" using rel(3,4) t by auto
  from createReducer_cases [OF R] show ?thesis
  proof (elim disjE conjE exE)
    assume "R = parts_only_reducer V cfg"
    then show ?thesis using t p by (simp add: parts_only_agrees)
  next
    fix A assume A: "additional V (otherReducer cfg) = Some A" and RA: "R = full_reducer V cfg A"
    from additional_cases [OF A] show ?thesis
    proof (elim disjE conjE exE)
      assume "A = combineOtherReducers (String V) (own_entries (otherReducer cfg))"
      then show ?thesis using RA t full_combine_agrees [OF p i] by simp
    next
      fix f assume nm: "\<not> isReducersMap V (otherReducer cfg)" and f: "otherReducer cfg = OFn f"
        and Af: "A = (\<lambda>state action n. Inr (f state action, n))"
      have "props (f (Some s1) a) = props (f (Some s2) a) \<and>
            is_obj s1 (f (Some s1) a) = is_obj s2 (f (Some s2) a)"
      proof (cases "s1 = s2")
        case True
        then show ?thesis by simp
      next
        case False
        then have "n1 \<le> ident s1" "n2 \<le> ident s2" using rel(2) t by (auto simp: fresh_from_def)
        then show ?thesis using pure nm f p by (simp add: other_ignores_addresses_def)
      qed
      then show ?thesis using RA Af t full_fn_agrees [OF p, of f a] by simp
    qed
  qed
qed

lemma replay_agrees:
  assumes R: "createReducer V cfg = Inr R"
    and pure: "other_ignores_addresses V (otherReducer cfg) n1 n2"
    and init: "\<forall>s. init = Some s \<longrightarrow> ident s < n1 \<and> ident s < n2"
  shows "map_option props t1 = map_option props t2 \<Longrightarrow> n1 \<le> c1 \<Longrightarrow> n2 \<le> c2 \<Longrightarrow>
         (t1 = init \<and> t2 = init) \<or>
         (\<exists>s1 s2. t1 = Some s1 \<and> t2 = Some s2 \<and> n1 \<le> ident s1 \<and> ident s1 < c1 \<and>
                   n2 \<le> ident s2 \<and> ident s2 < c2) \<Longrightarrow>
         same_outcome init n1 n2 (replay R t1 as c1) (replay R t2 as c2)"
proof (induction as arbitrary: t1 t2 c1 c2)
  case Nil
  then show ?case by (auto simp: same_outcome_def fresh_from_def)
next
  case (Cons a as)
  have r2: "t1 = t2 \<or> fresh_from n1 t1 \<and> fresh_from n2 t2"
    using Cons.prems(4) by (auto simp: fresh_from_def)
  have r3: "\<forall>s. t1 = Some s \<longrightarrow> ident s < c1" "\<forall>s. t2 = Some s \<longrightarrow> ident s < c2"
    using Cons.prems(2,3,4) init by auto
  have st: "step_agrees t1 c1 t2 c2 (R t1 a c1) (R t2 a c2)"
    by (rule root_step_agrees [OF R pure Cons.prems(1) r2 r3])
  show ?case
  proof (cases "R t1 a c1")
    case (Inl e)
    then have "R t2 a c2 = Inl e" using st by (auto simp: step_agrees_def split: sum.splits)
    then show ?thesis using Inl by (simp add: same_outcome_def)
  next
    case (Inr r)
    obtain u1 d1 where r: "r = (u1, d1)" by (cases r)
    obtain u2 d2 where y: "R t2 a c2 = Inr (u2, d2)"
      using st Inr by (cases "R t2 a c2") (auto simp: step_agrees_def)
    have s: "props u1 = props u2" "c1 \<le> d1" "c2 \<le> d2"
        "t1 = Some u1 \<and> t2 = Some u2 \<or>
         c1 \<le> ident u1 \<and> ident u1 < d1 \<and> c2 \<le> ident u2 \<and> ident u2 < d2"
      using st Inr r y by (auto simp: step_agrees_def)
    have "(Some u1 = init \<and> Some u2 = init) \<or>
          (\<exists>s1 s2. Some u1 = Some s1 \<and> Some u2 = Some s2 \<and> n1 \<le> ident s1 \<and> ident s1 < d1 \<and>
                    n2 \<le> ident s2 \<and> ident s2 < d2)"
      using s Cons.prems(2,3,4) by auto
    then have "same_outcome init n1 n2 (replay R (Some u1) as d1) (replay R (Some u2) as d2)"
      using s Cons.prems(2,3) by (intro Cons.IH) auto
    then show ?thesis using Inr r y by simp
  qed
qed

text \<open>
  C9. Replaying a sequence of actions twice from the same initial state, each replay
  with its own allocations, gives the same outcome: the same error, or final states with
  the same value at every key (unchanged sub-states are the same references), which
  are both the initial state itself or both objects the replay allocated. The initial
  state was allocated before both replays.
\<close>

theorem replay_deterministic:
  assumes "createReducer V cfg = Inr R"
    and "other_ignores_addresses V (otherReducer cfg) n1 n2"
    and "\<forall>s. init = Some s \<longrightarrow> ident s < n1 \<and> ident s < n2"
  shows "same_outcome init n1 n2 (replay R init as n1) (replay R init as n2)"
  using replay_agrees [OF assms, of init init n1 n2 as] by simp

theorem replay_deterministic_witness:
  "createReducer spec_validate counter_config = Inr (parts_only_reducer spec_validate counter_config) \<and>
   other_ignores_addresses spec_validate (otherReducer counter_config) 1 5 \<and>
   ident counter_state < 1 \<and> ident counter_state < 5 \<and>
   replay (parts_only_reducer spec_validate counter_config) (Some counter_state)
     [counter_action, noop_action, counter_action] 1 =
     Inr (Some \<lparr>ident = 2, props = [''counter'' \<mapsto> Num 7, ''extra'' \<mapsto> Null]\<rparr>, 3) \<and>
   same_outcome (Some counter_state) 1 5
     (Inr (Some \<lparr>ident = 2, props = [''counter'' \<mapsto> Num 7, ''extra'' \<mapsto> Null]\<rparr>, 3))
     (replay (parts_only_reducer spec_validate counter_config) (Some counter_state)
        [counter_action, noop_action, counter_action] 5) \<and>
   createReducer spec_validate log_config =
     Inr (full_reducer spec_validate log_config (\<lambda>state action n. Inr (log_fn state action, n))) \<and>
   other_ignores_addresses spec_validate (otherReducer log_config) 1 5 \<and>
   same_outcome None 1 5
     (replay (full_reducer spec_validate log_config (\<lambda>state action n. Inr (log_fn state action, n)))
        None [noop_action, counter_action] 1)
     (replay (full_reducer spec_validate log_config (\<lambda>state action n. Inr (log_fn state action, n)))
        None [noop_action, counter_action] 5)"
proof -
  let ?R = "parts_only_reducer spec_validate counter_config"
  have h1: "other_ignores_addresses spec_validate (otherReducer counter_config) 1 5"
    by (simp add: other_ignores_addresses_def counter_config_def spec_validate_def)
  have h2: "\<forall>s. Some counter_state = Some s \<longrightarrow> ident s < 1 \<and> ident s < 5"
    by (simp add: counter_state_def)
  have h3: "other_ignores_addresses spec_validate (otherReducer log_config) 1 5"
    by (auto simp: other_ignores_addresses_def log_config_def spec_validate_def log_fn_def is_obj_def)
  have h4: "\<forall>s. (None::obj option) = Some s \<longrightarrow> ident s < 1 \<and> ident s < 5"
    by simp
  have r: "replay ?R (Some counter_state) [counter_action, noop_action, counter_action] 1 =
     Inr (Some \<lparr>ident = 2, props = [''counter'' \<mapsto> Num 7, ''extra'' \<mapsto> Null]\<rparr>, 3)"
    by (simp add: parts_only_reducer_def partsReducer_def read_part_def spec_validate_def counter_action_def
        noop_action_def counter_config_def tag_of_def counter_part_def counter_reducer_def
        get_prop_def object_prototype_keys_def counter_state_def is_val_def fun_eq_iff)
  show ?thesis
    using replay_deterministic [OF counter_created h1 h2, of "[counter_action, noop_action, counter_action]"]
      replay_deterministic [OF log_created h3 h4, of "[noop_action, counter_action]"]
      counter_created log_created h1 h2 h3 r
    by simp
qed

end
